theory Spec2Isabelle
  imports Complex_Main "HOL-Library.Char_ord" "HOL-Library.List_Lexorder"
begin

section \<open>CoReManager: selection of runs and extraction radii, and the index of saved strains\<close>

text \<open>
  A shallow embedding of \<^verbatim>\<open>corewaeasy/corewaeasy.py\<close>. Python strings are \<open>string\<close>
  (ASCII text; the builtins below are modelled on ASCII input), Python's unbounded \<open>int\<close> is
  \<open>int\<close>, a \<open>dict\<close> that is iterated is an association list in insertion order, a
  \<open>dict\<close> that is only looked up is a map, and every exception is a value of \<open>error\<close>.
\<close>

subsection \<open>Exceptions\<close>

datatype error =
    ValueError
  | KeyError
  | IndexError
  | EOFError
  | FileNotFoundError
  | ExternalError string

subsection \<open>Python strings\<close>

text \<open>\<^verbatim>\<open>Py_ISSPACE\<close>, which \<^verbatim>\<open>float\<close> and \<^verbatim>\<open>int\<close> strip from both ends of an ASCII string.\<close>

definition c_isspace :: "char \<Rightarrow> bool" where
  "c_isspace c = (c \<in> set [CHR 0x09, CHR 0x0A, CHR 0x0B, CHR 0x0C, CHR 0x0D, CHR 0x20])"

text \<open>The ASCII characters for which \<^verbatim>\<open>str.isspace\<close> holds; \<^verbatim>\<open>str.split()\<close> splits at them.\<close>

definition str_isspace :: "char \<Rightarrow> bool" where
  "str_isspace c = (c_isspace c \<or> c \<in> set [CHR 0x1C, CHR 0x1D, CHR 0x1E, CHR 0x1F])"

definition is_digit :: "char \<Rightarrow> bool" where
  "is_digit c = (c \<in> set ''0123456789'')"

definition digit_val :: "char \<Rightarrow> int" where
  "digit_val c = of_char c - 48"

definition int_of_digits :: "string \<Rightarrow> int" where
  "int_of_digits ds = foldl (\<lambda>n c. 10 * n + digit_val c) 0 ds"

definition to_lower :: "char \<Rightarrow> char" where
  "to_lower c =
     (case map_of (zip ''ABCDEFGHIJKLMNOPQRSTUVWXYZ'' ''abcdefghijklmnopqrstuvwxyz'') c of
        Some l \<Rightarrow> l
      | None \<Rightarrow> c)"

definition strip_c :: "string \<Rightarrow> string" where
  "strip_c s = rev (dropWhile c_isspace (rev (dropWhile c_isspace s)))"

definition split_sign :: "string \<Rightarrow> bool \<times> string" where
  "split_sign s =
     (case s of
        [] \<Rightarrow> (False, [])
      | c # cs \<Rightarrow> if c = CHR ''-'' then (True, cs) else if c = CHR ''+'' then (False, cs) else (False, s))"

text \<open>
  An underscore in a numeric literal must stand between two digits. The first argument says
  whether the previous character was a digit.
\<close>

fun underscores_ok :: "bool \<Rightarrow> string \<Rightarrow> bool" where
  "underscores_ok p [] = True"
| "underscores_ok p (c # cs) =
     (if c = CHR ''_''
      then p \<and> (case cs of [] \<Rightarrow> False | d # _ \<Rightarrow> is_digit d) \<and> underscores_ok False cs
      else underscores_ok (is_digit c) cs)"

text \<open>\<^verbatim>\<open>a in b\<close> on strings.\<close>

fun str_contains :: "string \<Rightarrow> string \<Rightarrow> bool" where
  "str_contains sub [] = (sub = [])"
| "str_contains sub (c # cs) = (take (length sub) (c # cs) = sub \<or> str_contains sub cs)"

text \<open>\<^verbatim>\<open>s.split()\<close>: the maximal runs of characters that are not whitespace.\<close>

fun split_ws :: "string \<Rightarrow> string \<Rightarrow> string list" where
  "split_ws acc [] = (if acc = [] then [] else [rev acc])"
| "split_ws acc (c # cs) =
     (if str_isspace c then (if acc = [] then split_ws [] cs else rev acc # split_ws [] cs)
      else split_ws (c # acc) cs)"

definition py_split :: "string \<Rightarrow> string list" where
  "py_split s = split_ws [] s"

text \<open>\<^verbatim>\<open>s[-9:-4]\<close> and \<^verbatim>\<open>s[-5:]\<close>.\<close>

definition slice_m9_m4 :: "string \<Rightarrow> string" where
  "slice_m9_m4 s = take (length s - 4 - (length s - 9)) (drop (length s - 9) s)"

definition last5 :: "string \<Rightarrow> string" where
  "last5 s = drop (length s - 5) s"

text \<open>\<^verbatim>\<open>s.replace('_', ':')\<close>.\<close>

definition replace_underscore :: "string \<Rightarrow> string" where
  "replace_underscore s = map (\<lambda>c. if c = CHR ''_'' then CHR '':'' else c) s"

subsection \<open>Python floats\<close>

text \<open>
  A binary64 value: \<open>Fin r\<close> is the finite double whose exact value is \<open>r\<close> (positive
  zero for \<open>r = 0\<close>), \<open>NegZero\<close> is \<open>-0.0\<close>. Sign and payload of a not-a-number are
  not observable by the program, so there is one \<open>NaN\<close>.
\<close>

datatype pyfloat = Fin rat | NegZero | PosInf | NegInf | NaN

definition isnan :: "pyfloat \<Rightarrow> bool" where
  "isnan x = (x = NaN)"

text \<open>The order of the non-NaN values: a rank for the infinities, then the exact value.\<close>

fun pf_rank :: "pyfloat \<Rightarrow> int" where
  "pf_rank NegInf = -1"
| "pf_rank PosInf = 1"
| "pf_rank _ = 0"

fun pf_val :: "pyfloat \<Rightarrow> rat" where
  "pf_val (Fin r) = r"
| "pf_val _ = 0"

text \<open>\<^verbatim>\<open>a < b\<close> and \<^verbatim>\<open>a == b\<close> on floats: false whenever an operand is not-a-number.\<close>

definition pf_less :: "pyfloat \<Rightarrow> pyfloat \<Rightarrow> bool" where
  "pf_less a b =
     (\<not> isnan a \<and> \<not> isnan b \<and>
      (pf_rank a < pf_rank b \<or> (pf_rank a = pf_rank b \<and> pf_val a < pf_val b)))"

definition pf_eq :: "pyfloat \<Rightarrow> pyfloat \<Rightarrow> bool" where
  "pf_eq a b = (\<not> isnan a \<and> \<not> isnan b \<and> pf_rank a = pf_rank b \<and> pf_val a = pf_val b)"

subsubsection \<open>Rounding a positive rational to binary64\<close>

text \<open>The number of binary digits of a positive integer.\<close>

function bit_length :: "int \<Rightarrow> int" where
  "bit_length n = (if n \<le> 0 then 0 else 1 + bit_length (n div 2))"
  by pat_completeness auto
termination
  by (relation "measure nat") auto

declare bit_length.simps [simp del]

text \<open>\<open>\<lfloor>log\<^sub>2 (num / den)\<rfloor>\<close> for positive \<open>num\<close> and \<open>den\<close>.\<close>

definition floor_log2 :: "int \<Rightarrow> int \<Rightarrow> int" where
  "floor_log2 num den =
     (let k = bit_length num - bit_length den
      in if 0 \<le> k
         then (if den * 2 ^ nat k \<le> num then k else k - 1)
         else (if den \<le> num * 2 ^ nat (- k) then k else k - 1))"

definition pow2 :: "int \<Rightarrow> rat" where
  "pow2 s = (if 0 \<le> s then 2 ^ nat s else 1 / 2 ^ nat (- s))"

text \<open>Round \<open>a / b\<close> to the nearest integer, a tie to the even one.\<close>

definition round_half_even :: "int \<Rightarrow> int \<Rightarrow> int" where
  "round_half_even a b =
     (let m = a div b; r = a mod b
      in if 2 * r < b then m
         else if b < 2 * r then m + 1
         else if even m then m else m + 1)"

text \<open>
  The double nearest to \<open>\<plusminus> num / den\<close>, for \<open>num \<ge> 0\<close> and \<open>den > 0\<close>. The
  value lies in \<open>[2\<^sup>e, 2\<^sup>e\<^sup>+\<^sup>1)\<close> and is rounded to a multiple \<open>m\<close> of
  \<open>2\<^sup>e\<^sup>-\<^sup>5\<^sup>2\<close>, where \<open>e\<close> is at least \<open>-1022\<close> (the subnormal range). The result is an
  infinity when \<open>m * 2\<^sup>e\<^sup>-\<^sup>5\<^sup>2\<close> reaches \<open>2\<^sup>1\<^sup>0\<^sup>2\<^sup>4\<close>, which is when \<open>e\<close> is
  above \<open>1023\<close>, or \<open>e = 1023\<close> and \<open>m\<close> was rounded up to \<open>2\<^sup>5\<^sup>3\<close>.
\<close>

definition round_double :: "bool \<Rightarrow> int \<Rightarrow> int \<Rightarrow> pyfloat" where
  "round_double neg num den =
     (if num = 0 then (if neg then NegZero else Fin 0)
      else
        let e = max (floor_log2 num den) (- 1022);
            s = e - 52;
            m = (if 0 \<le> s then round_half_even num (den * 2 ^ nat s)
                 else round_half_even (num * 2 ^ nat (- s)) den)
        in if m = 0 then (if neg then NegZero else Fin 0)
           else if 1024 \<le> e \<or> (e = 1023 \<and> 9007199254740992 \<le> m)
           then (if neg then NegInf else PosInf)
           else Fin (if neg then - (of_int m * pow2 s) else of_int m * pow2 s))"

subsubsection \<open>\<^verbatim>\<open>float(s)\<close> on a string\<close>

text \<open>
  The exponent part of a literal, after the mantissa: nothing, or \<open>e\<close>/\<open>E\<close>, an optional
  sign and at least one digit.
\<close>

definition parse_exponent :: "string \<Rightarrow> int option" where
  "parse_exponent s =
     (case s of
        [] \<Rightarrow> Some 0
      | c # cs \<Rightarrow>
          if c = CHR ''e'' \<or> c = CHR ''E''
          then (let (neg, ds) = split_sign cs
                in if ds \<noteq> [] \<and> list_all is_digit ds
                   then Some (if neg then - int_of_digits ds else int_of_digits ds)
                   else None)
          else None)"

text \<open>
  An unsigned decimal literal \<open>digits [. digits] [exponent]\<close> or \<open>. digits [exponent]\<close>, as the
  pair (numerator, denominator) of its exact value.
\<close>

definition parse_decimal :: "string \<Rightarrow> (int \<times> int) option" where
  "parse_decimal s =
     (let ip = takeWhile is_digit s;
          r1 = dropWhile is_digit s;
          (fp, r2) = (case r1 of
                        c # cs \<Rightarrow> if c = CHR ''.''
                                  then (takeWhile is_digit cs, dropWhile is_digit cs)
                                  else ([], r1)
                      | [] \<Rightarrow> ([], r1))
      in if ip = [] \<and> fp = [] then None
         else (case parse_exponent r2 of
                 None \<Rightarrow> None
               | Some ex \<Rightarrow>
                   let n = int_of_digits (ip @ fp);
                       x = ex - int (length fp)
                   in Some (if 0 \<le> x then (n * 10 ^ nat x, 1) else (n, 10 ^ nat (- x)))))"

definition py_float :: "string \<Rightarrow> error + pyfloat" where
  "py_float s =
     (let t = strip_c s
      in if \<not> underscores_ok False t then Inl ValueError
         else
           let (neg, u) = split_sign (filter (\<lambda>c. c \<noteq> CHR ''_'') t);
               l = map to_lower u
           in if l = ''inf'' \<or> l = ''infinity'' then Inr (if neg then NegInf else PosInf)
              else if l = ''nan'' then Inr NaN
              else (case parse_decimal u of
                      None \<Rightarrow> Inl ValueError
                    | Some (num, den) \<Rightarrow> Inr (round_double neg num den)))"

subsubsection \<open>\<^verbatim>\<open>int(s)\<close> on a string, base 10\<close>

definition py_int :: "string \<Rightarrow> error + int" where
  "py_int s =
     (let (neg, u) = split_sign (strip_c s);
          ds = filter (\<lambda>c. c \<noteq> CHR ''_'') u
      in if ds \<noteq> [] \<and> underscores_ok False u \<and> list_all is_digit ds
         then Inr (if neg then - int_of_digits ds else int_of_digits ds)
         else Inl ValueError)"

subsection \<open>\<^verbatim>\<open>cast_to_float\<close>\<close>

text \<open>
  The argument is a metadata value: a string, or \<^verbatim>\<open>None\<close> (here \<open>None\<close>).
  \<^verbatim>\<open>string in ['', None]\<close> holds for exactly these two.
\<close>

definition cast_to_float :: "string option \<Rightarrow> error + pyfloat" where
  "cast_to_float string =
     (if string = Some [] \<or> string = None then Inr NaN
      else py_float (the string))"

subsection \<open>Runs of a simulation\<close>

text \<open>
  What the program reads of a run: \<^verbatim>\<open>run.md.data['id_eccentricity']\<close> (a string or
  \<^verbatim>\<open>None\<close>), \<^verbatim>\<open>run.path\<close> (as its path components), and the channel
  \<^verbatim>\<open>run.data.read_dset()['rh_22']\<close>, a dict from names to arrays.
\<close>

type_synonym gw_array = "pyfloat list list"

record run =
  id_eccentricity :: "string option"
  run_path :: "string list"
  rh_22 :: "(string \<times> gw_array) list"

type_synonym rundict = "(string \<times> run) list"

text \<open>
  \<^verbatim>\<open>cdb.sim[skey].run\<close> is a mutable dict object, and \<^verbatim>\<open>.copy()\<close> makes a new one.
  The store holds the dict objects; an object's address is its index, and a new object is
  appended.
\<close>

type_synonym store = "rundict list"

definition dict_copy :: "store \<Rightarrow> nat \<Rightarrow> nat \<times> store" where
  "dict_copy h a = (length h, h @ [h ! a])"

text \<open>\<^verbatim>\<open>d.pop(key)\<close> on the dict at address \<open>a\<close>: the value, and the store where that dict lost the key.\<close>

definition dict_pop :: "store \<Rightarrow> nat \<Rightarrow> string \<Rightarrow> (error + run) \<times> store" where
  "dict_pop h a key =
     (case map_of (h ! a) key of
        None \<Rightarrow> (Inl KeyError, h)
      | Some v \<Rightarrow> (Inr v, h[a := filter (\<lambda>kv. fst kv \<noteq> key) (h ! a)]))"

subsection \<open>\<^verbatim>\<open>get_runkey_lowest_eccentricity\<close>\<close>

text \<open>The \<^verbatim>\<open>for rkey, run in runs.items()\<close> loop, with the current \<^verbatim>\<open>run_key\<close> and \<^verbatim>\<open>ecc\<close>.\<close>

fun scan_runs :: "string \<Rightarrow> pyfloat \<Rightarrow> rundict \<Rightarrow> error + string \<times> pyfloat" where
  "scan_runs run_key ecc [] = Inr (run_key, ecc)"
| "scan_runs run_key ecc ((rkey, run) # rest) =
     (case cast_to_float (id_eccentricity run) of
        Inl e \<Rightarrow> Inl e
      | Inr ecc_i \<Rightarrow>
          if pf_less ecc_i ecc then scan_runs rkey ecc_i rest
          else if isnan ecc_i then Inr (rkey, ecc_i)
          else scan_runs run_key ecc rest)"

text \<open>
  The function on the store \<open>h\<close>, where \<open>sim_run\<close> is the address of
  \<^verbatim>\<open>self.cdb.sim[skey].run\<close>: what it returns or raises, and the store afterwards.
\<close>

definition get_runkey_lowest_eccentricity ::
  "store \<Rightarrow> nat \<Rightarrow> (error + string \<times> pyfloat) \<times> store" where
  "get_runkey_lowest_eccentricity h sim_run =
     (let (runs, h1) = dict_copy h sim_run;
          (popped, h2) = dict_pop h1 runs ''R01''
      in case popped of
           Inl e \<Rightarrow> (Inl e, h2)
         | Inr r01 \<Rightarrow>
             (case cast_to_float (id_eccentricity r01) of
                Inl e \<Rightarrow> (Inl e, h2)
              | Inr ecc \<Rightarrow>
                  if isnan ecc then (Inr (''R01'', ecc), h2)
                  else (scan_runs ''R01'' ecc (h2 ! runs), h2)))"

subsection \<open>\<^verbatim>\<open>_get_highest_r_extraction_\<close>\<close>

text \<open>
  \<^verbatim>\<open>max\<close> over an iterable of strings: the first item, replaced by each later item that is
  greater. Strings are compared lexicographically by character code.
\<close>

fun py_max_from :: "string \<Rightarrow> string list \<Rightarrow> string" where
  "py_max_from m [] = m"
| "py_max_from m (x # xs) = py_max_from (if m < x then x else m) xs"

definition py_max :: "string list \<Rightarrow> error + string" where
  "py_max xs = (case xs of [] \<Rightarrow> Inl ValueError | x # rest \<Rightarrow> Inr (py_max_from x rest))"

definition get_highest_r_extraction :: "(string \<times> 'a) list \<Rightarrow> error + string \<times> int" where
  "get_highest_r_extraction extractions =
     (case py_max (map fst extractions) of
        Inl e \<Rightarrow> Inl e
      | Inr rext_key \<Rightarrow>
          if str_contains ''Inf'' rext_key then Inr (rext_key, 99999)
          else (case py_int (slice_m9_m4 rext_key) of
                  Inl e \<Rightarrow> Inl e
                | Inr rext \<Rightarrow> Inr (rext_key, rext)))"

subsection \<open>The directory tree\<close>

text \<open>
  A path is the list of its components (\<^verbatim>\<open>Path.parts\<close>). Of the tree below
  \<^verbatim>\<open>db_path\<close> the program sees the paths that \<^verbatim>\<open>rglob\<close> walks, in the order of the
  walk, and the lines of the text files it opens (\<open>None\<close>: no such file). The tree is
  only read: no function below returns a changed tree.
\<close>

type_synonym path = "string list"

record tree =
  walk :: "path list"
  text_lines :: "path \<Rightarrow> string list option"

text \<open>A name matches \<^verbatim>\<open>Rh*.txt\<close>.\<close>

definition glob_Rh_txt :: "string \<Rightarrow> bool" where
  "glob_Rh_txt name =
     (6 \<le> length name \<and> take 2 name = ''Rh'' \<and> drop (length name - 4) name = ''.txt'')"

definition rglob_Rh_txt :: "tree \<Rightarrow> path list" where
  "rglob_Rh_txt t = filter (\<lambda>p. p \<noteq> [] \<and> glob_Rh_txt (last p)) (walk t)"

text \<open>\<^verbatim>\<open>Path.stem\<close> of a file name: the name up to its last dot, unless that dot is first or last.\<close>

definition path_stem :: "string \<Rightarrow> string" where
  "path_stem name =
     (if CHR ''.'' \<in> set name
      then (let i = length name - 1 - length (takeWhile (\<lambda>c. c \<noteq> CHR ''.'') (rev name))
            in if 0 < i \<and> i < length name - 1 then take i name else name)
      else name)"

subsection \<open>\<^verbatim>\<open>_read_eccentricity\<close>\<close>

definition read_eccentricity :: "tree \<Rightarrow> path \<Rightarrow> error + pyfloat" where
  "read_eccentricity t fname =
     (case text_lines t fname of
        None \<Rightarrow> Inl FileNotFoundError
      | Some f \<Rightarrow>
          (case find (str_contains ''id_eccentricity'') f of
             None \<Rightarrow> Inl EOFError
           | Some line \<Rightarrow>
               (case py_split line of
                  [] \<Rightarrow> Inl IndexError
                | w # ws \<Rightarrow>
                    (case py_float (last (w # ws)) of
                       Inl e \<Rightarrow> if e = ValueError then Inr NaN else Inl e
                     | Inr ecc \<Rightarrow> Inr ecc))))"

subsection \<open>\<^verbatim>\<open>_look_for_existing_strains\<close>\<close>

record artifact =
  art_file :: path
  eccentricity :: pyfloat
  r_extraction :: int

text \<open>The dictionary tree \<^verbatim>\<open>txt_files[simkey][run]\<close>.\<close>

type_synonym index = "string \<rightharpoonup> (string \<rightharpoonup> artifact)"

definition sim_key :: "path \<Rightarrow> string" where
  "sim_key f = replace_underscore (f ! (length f - 3))"

definition run_key :: "path \<Rightarrow> string" where
  "run_key f = f ! (length f - 2)"

text \<open>\<^verbatim>\<open>int(file.stem[-5:])\<close>.\<close>

definition radius_of :: "path \<Rightarrow> error + int" where
  "radius_of f = py_int (last5 (path_stem (last f)))"

text \<open>One turn of the loop over the matching files.\<close>

definition look_step :: "tree \<Rightarrow> index \<Rightarrow> path \<Rightarrow> error + index" where
  "look_step t txt_files f =
     (if length f < 3 then Inl IndexError
      else
        let key = sim_key f; run = run_key f
        in case read_eccentricity t (butlast f @ [''metadata.txt'']) of
             Inl e \<Rightarrow> Inl e
           | Inr ecc \<Rightarrow>
               (case radius_of f of
                  Inl e \<Rightarrow> Inl e
                | Inr rext \<Rightarrow>
                    (let entry = \<lparr>art_file = f, eccentricity = ecc, r_extraction = rext\<rparr>
                     in (case txt_files key of
                           None \<Rightarrow> Inr (txt_files(key \<mapsto> Map.empty(run \<mapsto> entry)))
                         | Some d \<Rightarrow>
                             (case d run of
                                None \<Rightarrow> Inr (txt_files(key \<mapsto> d(run \<mapsto> entry)))
                              | Some old \<Rightarrow>
                                  (case radius_of (art_file old) of
                                     Inl e \<Rightarrow> Inl e
                                   | Inr r0 \<Rightarrow>
                                       if rext < r0 then Inr txt_files
                                       else Inr (txt_files(key \<mapsto> d(run \<mapsto> entry)))))))))"

fun look_loop :: "tree \<Rightarrow> index \<Rightarrow> path list \<Rightarrow> error + index" where
  "look_loop t txt_files [] = Inr txt_files"
| "look_loop t txt_files (f # fs) =
     (case look_step t txt_files f of
        Inl e \<Rightarrow> Inl e
      | Inr txt_files' \<Rightarrow> look_loop t txt_files' fs)"

definition look_for_existing_strains :: "tree \<Rightarrow> error + index" where
  "look_for_existing_strains t = look_loop t Map.empty (rglob_Rh_txt t)"

text \<open>The entry of a simulation and run in the index.\<close>

definition entry_of :: "index \<Rightarrow> string \<Rightarrow> string \<Rightarrow> artifact option" where
  "entry_of idx key run = (case idx key of None \<Rightarrow> None | Some d \<Rightarrow> d run)"

subsection \<open>\<^verbatim>\<open>download_strains\<close>\<close>

text \<open>
  What the manager does to the world outside it, in order: printing, the call of
  \<^verbatim>\<open>cdb.sync(dbkeys=[skey], prot=prot, lfs=lfs, verbose=False)\<close>, the file written by
  \<^verbatim>\<open>np.savetxt(ofile, gw_data, header=...)\<close>, and the removals of \<^verbatim>\<open>_clean_h5_data\<close>.
\<close>

datatype event =
    Print string
  | Sync string string bool
  | SaveTxt path gw_array string
  | Unlink path
  | Rmtree path

text \<open>
  What watpy answers: the exception of a \<^verbatim>\<open>sync\<close>, if it raises one; after the sync,
  \<^verbatim>\<open>cdb.sim[skey].run\<close> (\<open>None\<close>: no such simulation) and \<^verbatim>\<open>cdb.sim[skey].path\<close>; and
  the files that \<^verbatim>\<open>root.glob('*/*.h5')\<close> finds.
\<close>

record collaborators =
  sync_raises :: "string \<Rightarrow> error option"
  sim_run :: "string \<Rightarrow> rundict option"
  sim_path :: "string \<Rightarrow> path"
  h5_files :: "string \<Rightarrow> path list"

text \<open>The manager's \<^verbatim>\<open>self.downloaded\<close>, and the effects so far.\<close>

record manager =
  downloaded :: index
  trace :: "event list"

definition header_gw_txt :: string where
  "header_gw_txt = ''u/M:0 Reh/M:1 Imh/M:2 Redh/M:3 Imdh/M:4 Momega:5 A/M:6 phi:7 t:8''"

text \<open>The decimal digits of a natural number, and the format \<^verbatim>\<open>{rext:05d}\<close>.\<close>

function dec_digits :: "int \<Rightarrow> string" where
  "dec_digits n =
     (if n < 10 then [char_of (48 + n)] else dec_digits (n div 10) @ [char_of (48 + n mod 10)])"
  by pat_completeness auto
termination
  by (relation "measure nat") auto

declare dec_digits.simps [simp del]

definition format_05d :: "int \<Rightarrow> string" where
  "format_05d n =
     (let sgn = (if n < 0 then [CHR ''-''] else []); ds = dec_digits \<bar>n\<bar>
      in sgn @ replicate (5 - length sgn - length ds) CHR ''0'' @ ds)"

definition clean_h5_data :: "collaborators \<Rightarrow> string \<Rightarrow> event list" where
  "clean_h5_data c skey = map Unlink (h5_files c skey) @ [Rmtree (sim_path c skey @ [''.git''])]"

definition emit :: "event list \<Rightarrow> manager \<Rightarrow> manager" where
  "emit evs m = m\<lparr>trace := trace m @ evs\<rparr>"

text \<open>
  One turn of the loop over \<^verbatim>\<open>simkeys\<close>: the exception that leaves the loop, if any, and
  the manager at that point.
\<close>

definition download_one ::
  "collaborators \<Rightarrow> bool \<Rightarrow> bool \<Rightarrow> string \<Rightarrow> bool \<Rightarrow> bool \<Rightarrow> manager \<Rightarrow> string
     \<Rightarrow> error option \<times> manager" where
  "download_one c keep_h5 overwrite prot lfs verbose m skey =
     (if \<not> overwrite \<and> downloaded m skey \<noteq> None
      then (None, if verbose then emit [Print (skey @ '' already downloaded, skipping.'')] m else m)
      else
        let m1 = emit [Sync skey prot lfs] m
        in case sync_raises c skey of
             Some e \<Rightarrow> (Some e, m1)
           | None \<Rightarrow>
         (case sim_run c skey of
            None \<Rightarrow> (Some KeyError, m1)
          | Some runs \<Rightarrow>
         (case get_runkey_lowest_eccentricity [runs] 0 of
            (Inl e, h) \<Rightarrow> (Some e, m1)
          | (Inr (runkey, ecc), h) \<Rightarrow>
         (case map_of (h ! 0) runkey of
            None \<Rightarrow> (Some KeyError, m1)
          | Some run \<Rightarrow>
         (case get_highest_r_extraction (rh_22 run) of
            Inl e \<Rightarrow> (Some e, m1)
          | Inr (rext_key, rext) \<Rightarrow>
         (case map_of (rh_22 run) rext_key of
            None \<Rightarrow> (Some KeyError, m1)
          | Some gw_data \<Rightarrow>
              let ofile = run_path run @ [''Rh_l2_m2_r'' @ format_05d rext @ ''.txt''];
                  m2 = emit [SaveTxt ofile gw_data header_gw_txt] m1;
                  m3 = m2\<lparr>downloaded := (downloaded m2)
                         (skey \<mapsto> Map.empty(runkey \<mapsto> \<lparr>art_file = ofile, eccentricity = ecc,
                                                r_extraction = rext\<rparr>))\<rparr>;
                  m4 = (if \<not> keep_h5 then emit (clean_h5_data c skey) m3 else m3);
                  m5 = (if verbose then emit [Print (skey @ '' downloaded.'')] m4 else m4)
              in (None, m5)))))))"

fun download_strains ::
  "collaborators \<Rightarrow> string list \<Rightarrow> bool \<Rightarrow> bool \<Rightarrow> string \<Rightarrow> bool \<Rightarrow> bool \<Rightarrow> manager
     \<Rightarrow> error option \<times> manager" where
  "download_strains c [] keep_h5 overwrite prot lfs verbose m = (None, m)"
| "download_strains c (skey # simkeys) keep_h5 overwrite prot lfs verbose m =
     (case download_one c keep_h5 overwrite prot lfs verbose m skey of
        (Some e, m') \<Rightarrow> (Some e, m')
      | (None, m') \<Rightarrow> download_strains c simkeys keep_h5 overwrite prot lfs verbose m')"

subsection \<open>Classes of strings\<close>



subsection \<open>What the index holds after a part of the scan\<close>

text \<open>
  Used in the proofs: \<open>S\<close> is the set of files scanned so far. Every entry is made from
  a scanned file of its simulation and run, and no scanned file of that simulation and run
  has a greater radius; every scanned file has an entry for its simulation and run.
\<close>

definition index_inv :: "path set \<Rightarrow> index \<Rightarrow> bool" where
  "index_inv S idx =
     ((\<forall>key run a. entry_of idx key run = Some a \<longrightarrow>
         art_file a \<in> S \<and> sim_key (art_file a) = key \<and> run_key (art_file a) = run \<and>
         radius_of (art_file a) = Inr (r_extraction a) \<and>
         (\<forall>g \<in> S. sim_key g = key \<and> run_key g = run \<longrightarrow>
            (\<exists>r. radius_of g = Inr r \<and> r \<le> r_extraction a))) \<and>
      (\<forall>g \<in> S. entry_of idx (sim_key g) (run_key g) \<noteq> None))"

subsection \<open>Example data\<close>

definition run_with :: "string option \<Rightarrow> run" where
  "run_with ecc = \<lparr>id_eccentricity = ecc, run_path = [], rh_22 = []\<rparr>"

definition runs_nan_last :: rundict where
  "runs_nan_last =
     [(''R01'', run_with (Some ''0.05'')), (''R02'', run_with (Some ''0.01'')),
      (''R03'', run_with (Some ''NAN''))]"

definition runs_nan_first :: rundict where
  "runs_nan_first = [(''R01'', run_with (Some ''NAN'')), (''R02'', run_with (Some ''zero''))]"

definition runs_tie :: rundict where
  "runs_tie =
     [(''R02'', run_with (Some ''0.5'')), (''R01'', run_with (Some ''2'')),
      (''R03'', run_with (Some ''5e-1'')), (''R04'', run_with (Some ''1''))]"

definition channels_finite :: "(string \<times> gw_array) list" where
  "channels_finite = [(''Rh_l2_m2_r00100.txt'', []), (''Rh_l2_m2_r00250.txt'', [])]"

definition channels_inf :: "(string \<times> gw_array) list" where
  "channels_inf = [(''Rh_l2_m2_r00100.txt'', []), (''Rh_l2_m2_rInf.txt'', [])]"

text \<open>
  A tree with three run directories: the metadata of the first has an eccentricity, that
  of the second has no such line, and that of the third has one that is no number.
\<close>

definition meta_example :: "path \<Rightarrow> string list option" where
  "meta_example p =
     (if p = [''db'', ''BAM_0001'', ''R01'', ''metadata.txt'']
      then Some [''id_mass = 2.7'', ''id_eccentricity = 0'']
      else if p = [''db'', ''BAM_0002'', ''R01'', ''metadata.txt'']
      then Some [''id_mass = 2.7'']
      else if p = [''db'', ''BAM_0003'', ''R01'', ''metadata.txt'']
      then Some [''id_mass = 2.7'', ''id_eccentricity = unknown'', ''id_eccentricity = 0'']
      else None)"

definition tree_of :: "path list \<Rightarrow> tree" where
  "tree_of ps = \<lparr>walk = ps, text_lines = meta_example\<rparr>"

text \<open>Saved strains of one run, and its metadata file.\<close>

definition strain_r100 :: path where
  "strain_r100 = [''db'', ''BAM_0001'', ''R01'', ''Rh_l2_m2_r00100.txt'']"

definition strain_r250 :: path where
  "strain_r250 = [''db'', ''BAM_0001'', ''R01'', ''Rh_l2_m2_r00250.txt'']"

definition strain_r100_bis :: path where
  "strain_r100_bis = [''db'', ''BAM_0001'', ''R01'', ''Rh_22_r00100.txt'']"

definition metadata_file :: path where
  "metadata_file = [''db'', ''BAM_0001'', ''R01'', ''metadata.txt'']"

text \<open>A database with one simulation \<open>S\<close> of one run, and a manager that has nothing yet.\<close>

definition cdb_example :: collaborators where
  "cdb_example =
     \<lparr>sync_raises = (\<lambda>skey. None),
      sim_run = (\<lambda>skey. if skey = ''S''
         then Some [(''R01'', \<lparr>id_eccentricity = Some ''0'', run_path = [''db'', ''S'', ''R01''],
                       rh_22 = [(''Rh_l2_m2_r00100.txt'', [[Fin 0]]),
                                (''Rh_l2_m2_rInf.txt'', [[Fin 1]])]\<rparr>)]
         else None),
      sim_path = (\<lambda>skey. [''db'', skey]),
      h5_files = (\<lambda>skey. [[''db'', skey, ''R01'', ''data.h5'']])\<rparr>"

definition manager_new :: manager where
  "manager_new = \<lparr>downloaded = Map.empty, trace = []\<rparr>"

section \<open>Properties\<close>

subsection \<open>Comparison of floats\<close>

lemma pf_less_NaN [simp]: "\<not> pf_less NaN b" "\<not> pf_less a NaN"
  by (simp_all add: pf_less_def isnan_def)

lemma pf_less_trans: "pf_less a b \<Longrightarrow> pf_less b c \<Longrightarrow> pf_less a c"
  by (auto simp: pf_less_def)

lemma pf_less_not_less_trans:
  "pf_less a b \<Longrightarrow> \<not> pf_less c b \<Longrightarrow> \<not> isnan c \<Longrightarrow> pf_less a c"
  by (auto simp: pf_less_def)

subsection \<open>What the selection returns, and the store it leaves\<close>

lemma grle_fst:
  "fst (get_runkey_lowest_eccentricity h a) =
     (case map_of (h ! a) ''R01'' of
        None \<Rightarrow> Inl KeyError
      | Some r01 \<Rightarrow>
          (case cast_to_float (id_eccentricity r01) of
             Inl e \<Rightarrow> Inl e
           | Inr ecc \<Rightarrow>
               if isnan ecc then Inr (''R01'', ecc)
               else scan_runs ''R01'' ecc (filter (\<lambda>kv. fst kv \<noteq> ''R01'') (h ! a))))"
  by (simp add: get_runkey_lowest_eccentricity_def dict_copy_def dict_pop_def
           split: option.split sum.split)

lemma grle_snd:
  "snd (get_runkey_lowest_eccentricity h a) =
     h @ [case map_of (h ! a) ''R01'' of
            None \<Rightarrow> h ! a
          | Some r01 \<Rightarrow> filter (\<lambda>kv. fst kv \<noteq> ''R01'') (h ! a)]"
  by (simp add: get_runkey_lowest_eccentricity_def dict_copy_def dict_pop_def
           split: option.split sum.split)

lemma scan_runs_nan_stop:
  assumes "\<forall>kr \<in> set pre. \<exists>v. cast_to_float (id_eccentricity (snd kr)) = Inr v \<and> \<not> isnan v"
    and "cast_to_float (id_eccentricity r) = Inr NaN"
  shows "scan_runs rk e (pre @ (k, r) # post) = Inr (k, NaN)"
  using assms
proof (induction pre arbitrary: rk e)
  case Nil
  then show ?case by (simp add: isnan_def)
next
  case (Cons x pre)
  obtain kx rx where x: "x = (kx, rx)" by (cases x)
  from Cons.prems(1) x obtain v where v: "cast_to_float (id_eccentricity rx) = Inr v" "\<not> isnan v"
    by auto
  from Cons.prems have pre: "\<forall>kr \<in> set pre. \<exists>v. cast_to_float (id_eccentricity (snd kr)) = Inr v \<and> \<not> isnan v"
    by simp
  show ?case
    using Cons.IH[OF pre Cons.prems(2)] v x by simp
qed

subsection \<open>The run dict of the simulation is left as it was\<close>

text \<open>
  Claim C10. \<^verbatim>\<open>get_runkey_lowest_eccentricity\<close> does not mutate its input: it pops the
  reference run from a copy. For a live dict object \<open>a\<close> of the store, the object is the same
  after the call, with the same keys in the same order, whatever the call returns or raises;
  the reference run is missing only from the new object, the copy at address \<open>length h\<close>.
\<close>
theorem get_runkey_keeps_sim_runs:
  "a < length h \<Longrightarrow>
     snd (get_runkey_lowest_eccentricity h a) ! a = h ! a \<and>
     map fst (snd (get_runkey_lowest_eccentricity h a) ! a) = map fst (h ! a) \<and>
     (map_of (h ! a) ''R01'' \<noteq> None \<longrightarrow>
        snd (get_runkey_lowest_eccentricity h a) ! length h =
          filter (\<lambda>kv. fst kv \<noteq> ''R01'') (h ! a))"
  by (auto simp: grle_snd nth_append)

theorem get_runkey_keeps_sim_runs_witness:
  "(0::nat) < length [runs_nan_last] \<and>
   map fst (snd (get_runkey_lowest_eccentricity [runs_nan_last] 0) ! 0) = [''R01'', ''R02'', ''R03''] \<and>
   map fst (snd (get_runkey_lowest_eccentricity [runs_nan_last] 0) ! 1) = [''R02'', ''R03'']"
proof -
  have len: "(0::nat) < length [runs_nan_last]" by simp
  have r01: "map_of ([runs_nan_last] ! 0) ''R01'' \<noteq> None" by (simp add: runs_nan_last_def)
  show ?thesis
    using get_runkey_keeps_sim_runs[OF len] r01 by (simp add: runs_nan_last_def)
qed

subsection \<open>A reference run without eccentricity\<close>

text \<open>
  Claim C4. If the eccentricity of the reference run \<^verbatim>\<open>R01\<close> is \<^verbatim>\<open>None\<close>, empty or
  \<^verbatim>\<open>"NAN"\<close> (or any other string that \<^verbatim>\<open>cast_to_float\<close> maps to not-a-number), the function
  returns \<^verbatim>\<open>('R01', nan)\<close>. Nothing is assumed of the other runs, so none of them is read: in
  the witness the second run has an eccentricity that \<^verbatim>\<open>cast_to_float\<close> rejects.
\<close>
theorem reference_nan_returns_at_once:
  "map_of (h ! a) ''R01'' = Some r01 \<Longrightarrow>
   id_eccentricity r01 \<in> {None, Some [], Some ''NAN''} \<or>
     cast_to_float (id_eccentricity r01) = Inr NaN \<Longrightarrow>
   fst (get_runkey_lowest_eccentricity h a) = Inr (''R01'', NaN)"
proof -
  assume r: "map_of (h ! a) ''R01'' = Some r01"
  assume e: "id_eccentricity r01 \<in> {None, Some [], Some ''NAN''} \<or>
     cast_to_float (id_eccentricity r01) = Inr NaN"
  have nan: "cast_to_float (Some ''NAN'') = Inr NaN" by code_simp
  have "cast_to_float (id_eccentricity r01) = Inr NaN"
    using e nan by (auto simp: cast_to_float_def)
  then show ?thesis using r by (simp add: grle_fst isnan_def)
qed

theorem reference_nan_returns_at_once_witness:
  "map_of ([runs_nan_first] ! 0) ''R01'' = Some (run_with (Some ''NAN'')) \<and>
   cast_to_float (id_eccentricity (run_with (Some ''zero''))) = Inl ValueError \<and>
   fst (get_runkey_lowest_eccentricity [runs_nan_first] 0) = Inr (''R01'', NaN)"
proof -
  have r: "map_of ([runs_nan_first] ! 0) ''R01'' = Some (run_with (Some ''NAN''))"
    by (simp add: runs_nan_first_def)
  have e: "id_eccentricity (run_with (Some ''NAN'')) \<in> {None, Some [], Some ''NAN''} \<or>
     cast_to_float (id_eccentricity (run_with (Some ''NAN''))) = Inr NaN"
    by (simp add: run_with_def)
  have z: "cast_to_float (id_eccentricity (run_with (Some ''zero''))) = Inl ValueError"
    by code_simp
  show ?thesis
    using reference_nan_returns_at_once[OF r e] r z by simp
qed

subsection \<open>The first run without eccentricity ends the scan\<close>

text \<open>
  Claim C1. The reference run \<^verbatim>\<open>R01\<close> has a numeric eccentricity. Of the other runs, in
  iteration order, \<open>(k, r)\<close> is the first whose eccentricity is not-a-number; those before it
  (\<open>pre\<close>) have numeric ones, any of which may have improved on the reference. The function
  returns \<open>(k, NaN)\<close>, and nothing is assumed of the runs after it (\<open>post\<close>). The witness is
  the example of the claim, with the run keys as the program has them: for
  \<^verbatim>\<open>{R01: "0.05", R02: "0.01", R03: "NAN"}\<close> the result is \<^verbatim>\<open>('R03', nan)\<close>, although
  \<^verbatim>\<open>R02\<close> is below \<^verbatim>\<open>R01\<close>.
\<close>
theorem first_nan_run_is_selected:
  assumes "map_of (h ! a) ''R01'' = Some r01"
    and "cast_to_float (id_eccentricity r01) = Inr e0" and "\<not> isnan e0"
    and "filter (\<lambda>kv. fst kv \<noteq> ''R01'') (h ! a) = pre @ (k, r) # post"
    and "\<forall>kr \<in> set pre. \<exists>v. cast_to_float (id_eccentricity (snd kr)) = Inr v \<and> \<not> isnan v"
    and "cast_to_float (id_eccentricity r) = Inr NaN"
  shows "fst (get_runkey_lowest_eccentricity h a) = Inr (k, NaN)"
  using assms(1-4) scan_runs_nan_stop[OF assms(5,6)] by (simp add: grle_fst)

theorem first_nan_run_is_selected_witness:
  "fst (get_runkey_lowest_eccentricity [runs_nan_last] 0) = Inr (''R03'', NaN) \<and>
   pf_less (Fin (5764607523034235 / 576460752303423488)) (Fin (3602879701896397 / 72057594037927936))"
proof -
  have 1: "map_of ([runs_nan_last] ! 0) ''R01'' = Some (run_with (Some ''0.05''))"
    by (simp add: runs_nan_last_def)
  have 2: "cast_to_float (id_eccentricity (run_with (Some ''0.05''))) =
             Inr (Fin (3602879701896397 / 72057594037927936))"
    by code_simp
  have 3: "\<not> isnan (Fin (3602879701896397 / 72057594037927936))"
    by (simp add: isnan_def)
  have 4: "filter (\<lambda>kv. fst kv \<noteq> ''R01'') ([runs_nan_last] ! 0) =
             [(''R02'', run_with (Some ''0.01''))] @ (''R03'', run_with (Some ''NAN'')) # []"
    by (simp add: runs_nan_last_def)
  have v: "cast_to_float (id_eccentricity (run_with (Some ''0.01''))) =
             Inr (Fin (5764607523034235 / 576460752303423488))"
    by code_simp
  have 5: "\<forall>kr \<in> set [(''R02'', run_with (Some ''0.01''))].
             \<exists>v. cast_to_float (id_eccentricity (snd kr)) = Inr v \<and> \<not> isnan v"
    using v by (simp add: isnan_def)
  have 6: "cast_to_float (id_eccentricity (run_with (Some ''NAN''))) = Inr NaN"
    by code_simp
  have 7: "pf_less (Fin (5764607523034235 / 576460752303423488)) (Fin (3602879701896397 / 72057594037927936))"
    by code_simp
  show ?thesis
    using first_nan_run_is_selected[OF 1 2 3 4 5 6] 7 by simp
qed

subsection \<open>Equal eccentricities: the first run stays\<close>

text \<open>
  The scan over runs that all have numeric eccentricities: either the incumbent stays and
  no run is below it, or the result is a run strictly below the incumbent, strictly below
  every run before it and not above any run after it.
\<close>

lemma scan_runs_first_min:
  assumes "\<forall>kr \<in> set rs. \<exists>v. cast_to_float (id_eccentricity (snd kr)) = Inr v \<and> \<not> isnan v"
    and "\<not> isnan e"
  shows "(scan_runs rk e rs = Inr (rk, e) \<and>
          (\<forall>kr \<in> set rs. \<forall>v'. cast_to_float (id_eccentricity (snd kr)) = Inr v' \<longrightarrow> \<not> pf_less v' e))
       \<or> (\<exists>pre k r post v. rs = pre @ (k, r) # post \<and> scan_runs rk e rs = Inr (k, v) \<and>
             cast_to_float (id_eccentricity r) = Inr v \<and> pf_less v e \<and>
             (\<forall>kr \<in> set pre. \<forall>v'. cast_to_float (id_eccentricity (snd kr)) = Inr v' \<longrightarrow> pf_less v v') \<and>
             (\<forall>kr \<in> set post. \<forall>v'. cast_to_float (id_eccentricity (snd kr)) = Inr v' \<longrightarrow> \<not> pf_less v' v))"
  using assms
proof (induction rs arbitrary: rk e)
  case Nil
  then show ?case by simp
next
  case (Cons x rs)
  obtain kx rx where x: "x = (kx, rx)" by (cases x)
  from Cons.prems(1) x obtain vx where vx: "cast_to_float (id_eccentricity rx) = Inr vx" "\<not> isnan vx"
    by auto
  from Cons.prems have rs: "\<forall>kr \<in> set rs. \<exists>v. cast_to_float (id_eccentricity (snd kr)) = Inr v \<and> \<not> isnan v"
    by simp
  show ?case
  proof (cases "pf_less vx e")
    case True
    then have step: "scan_runs rk e (x # rs) = scan_runs kx vx rs"
      using x vx by simp
    from Cons.IH[OF rs vx(2), of kx] show ?thesis
    proof (elim disjE exE conjE)
      assume a: "scan_runs kx vx rs = Inr (kx, vx)"
        and b: "\<forall>kr \<in> set rs. \<forall>v'. cast_to_float (id_eccentricity (snd kr)) = Inr v' \<longrightarrow> \<not> pf_less v' vx"
      have 1: "x # rs = [] @ (kx, rx) # rs" using x by simp
      have 2: "scan_runs rk e (x # rs) = Inr (kx, vx)" using step a by simp
      have 4: "\<forall>kr \<in> set []. \<forall>v'. cast_to_float (id_eccentricity (snd kr)) = Inr v' \<longrightarrow> pf_less vx v'"
        by simp
      show ?thesis
        apply (rule disjI2)
        apply (rule exI[of _ "[]"], rule exI[of _ kx], rule exI[of _ rx], rule exI[of _ rs],
               rule exI[of _ vx])
        by (insert 1 2 vx(1) True 4 b, intro conjI; assumption)
    next
      fix pre k r post v
      assume a: "rs = pre @ (k, r) # post" "scan_runs kx vx rs = Inr (k, v)"
        "cast_to_float (id_eccentricity r) = Inr v" "pf_less v vx"
        "\<forall>kr \<in> set pre. \<forall>v'. cast_to_float (id_eccentricity (snd kr)) = Inr v' \<longrightarrow> pf_less v v'"
        "\<forall>kr \<in> set post. \<forall>v'. cast_to_float (id_eccentricity (snd kr)) = Inr v' \<longrightarrow> \<not> pf_less v' v"
      have 1: "x # rs = (x # pre) @ (k, r) # post" using a(1) by simp
      have 2: "scan_runs rk e (x # rs) = Inr (k, v)" using step a(2) by simp
      have 3: "pf_less v e" using a(4) True by (rule pf_less_trans)
      have 4: "\<forall>kr \<in> set (x # pre). \<forall>v'. cast_to_float (id_eccentricity (snd kr)) = Inr v' \<longrightarrow> pf_less v v'"
        using a(4,5) x vx(1) by simp
      show ?thesis
        apply (rule disjI2)
        apply (rule exI[of _ "x # pre"], rule exI[of _ k], rule exI[of _ r], rule exI[of _ post],
               rule exI[of _ v])
        by (insert 1 2 a(3) 3 4 a(6), intro conjI; assumption)
    qed
  next
    case False
    then have step: "scan_runs rk e (x # rs) = scan_runs rk e rs"
      using x vx by simp
    from Cons.IH[OF rs Cons.prems(2), of rk] show ?thesis
    proof (elim disjE exE conjE)
      assume a: "scan_runs rk e rs = Inr (rk, e)"
        and b: "\<forall>kr \<in> set rs. \<forall>v'. cast_to_float (id_eccentricity (snd kr)) = Inr v' \<longrightarrow> \<not> pf_less v' e"
      have 2: "scan_runs rk e (x # rs) = Inr (rk, e)" using step a by simp
      have 4: "\<forall>kr \<in> set (x # rs). \<forall>v'. cast_to_float (id_eccentricity (snd kr)) = Inr v' \<longrightarrow> \<not> pf_less v' e"
        using b False x vx(1) by simp
      show ?thesis
        apply (rule disjI1)
        by (insert 2 4, intro conjI; assumption)
    next
      fix pre k r post v
      assume a: "rs = pre @ (k, r) # post" "scan_runs rk e rs = Inr (k, v)"
        "cast_to_float (id_eccentricity r) = Inr v" "pf_less v e"
        "\<forall>kr \<in> set pre. \<forall>v'. cast_to_float (id_eccentricity (snd kr)) = Inr v' \<longrightarrow> pf_less v v'"
        "\<forall>kr \<in> set post. \<forall>v'. cast_to_float (id_eccentricity (snd kr)) = Inr v' \<longrightarrow> \<not> pf_less v' v"
      have 1: "x # rs = (x # pre) @ (k, r) # post" using a(1) by simp
      have 2: "scan_runs rk e (x # rs) = Inr (k, v)" using step a(2) by simp
      have "pf_less v vx" using a(4) False vx(2) by (rule pf_less_not_less_trans)
      then have 4: "\<forall>kr \<in> set (x # pre). \<forall>v'. cast_to_float (id_eccentricity (snd kr)) = Inr v' \<longrightarrow> pf_less v v'"
        using a(5) x vx(1) by simp
      show ?thesis
        apply (rule disjI2)
        apply (rule exI[of _ "x # pre"], rule exI[of _ k], rule exI[of _ r], rule exI[of _ post],
               rule exI[of _ v])
        by (insert 1 2 a(3) a(4) 4 a(6), intro conjI; assumption)
    qed
  qed
qed

lemma scan_runs_tie_skipped:
  "cast_to_float (id_eccentricity r) = Inr v \<Longrightarrow> pf_eq v e \<Longrightarrow>
   scan_runs rk e ((k, r) # rest) = scan_runs rk e rest"
  by (auto simp: pf_eq_def pf_less_def)

lemma first_minimum_run:
  assumes "map_of (h ! a) ''R01'' = Some r01"
    and "\<forall>kr \<in> set (h ! a). \<exists>v. cast_to_float (id_eccentricity (snd kr)) = Inr v \<and> \<not> isnan v"
  shows "\<exists>pre k r post v.
           (''R01'', r01) # filter (\<lambda>kv. fst kv \<noteq> ''R01'') (h ! a) = pre @ (k, r) # post \<and>
           fst (get_runkey_lowest_eccentricity h a) = Inr (k, v) \<and>
           cast_to_float (id_eccentricity r) = Inr v \<and>
           (\<forall>kr \<in> set pre. \<forall>v'. cast_to_float (id_eccentricity (snd kr)) = Inr v' \<longrightarrow> pf_less v v') \<and>
           (\<forall>kr \<in> set post. \<forall>v'. cast_to_float (id_eccentricity (snd kr)) = Inr v' \<longrightarrow> \<not> pf_less v' v)"
proof -
  let ?rest = "filter (\<lambda>kv. fst kv \<noteq> ''R01'') (h ! a)"
  have "(''R01'', r01) \<in> set (h ! a)" using assms(1) by (rule map_of_SomeD)
  with assms(2) obtain v0 where v0: "cast_to_float (id_eccentricity r01) = Inr v0" "\<not> isnan v0"
    by fastforce
  have rest: "\<forall>kr \<in> set ?rest. \<exists>v. cast_to_float (id_eccentricity (snd kr)) = Inr v \<and> \<not> isnan v"
    using assms(2) by simp
  have res: "fst (get_runkey_lowest_eccentricity h a) = scan_runs ''R01'' v0 ?rest"
    using assms(1) v0 by (simp add: grle_fst)
  from scan_runs_first_min[OF rest v0(2), of "''R01''"] show ?thesis
  proof (elim disjE exE conjE)
    assume a: "scan_runs ''R01'' v0 ?rest = Inr (''R01'', v0)"
      and b: "\<forall>kr \<in> set ?rest. \<forall>v'. cast_to_float (id_eccentricity (snd kr)) = Inr v' \<longrightarrow> \<not> pf_less v' v0"
    have 1: "(''R01'', r01) # ?rest = [] @ (''R01'', r01) # ?rest" by simp
    have 2: "fst (get_runkey_lowest_eccentricity h a) = Inr (''R01'', v0)" using res a by simp
    have 4: "\<forall>kr \<in> set []. \<forall>v'. cast_to_float (id_eccentricity (snd kr)) = Inr v' \<longrightarrow> pf_less v0 v'"
      by simp
    show ?thesis
      apply (rule exI[of _ "[]"], rule exI[of _ "''R01''"], rule exI[of _ r01],
             rule exI[of _ ?rest], rule exI[of _ v0])
      by (insert 1 2 v0(1) 4 b, intro conjI; assumption)
  next
    fix pre k r post v
    assume a: "?rest = pre @ (k, r) # post" "scan_runs ''R01'' v0 ?rest = Inr (k, v)"
      "cast_to_float (id_eccentricity r) = Inr v" "pf_less v v0"
      "\<forall>kr \<in> set pre. \<forall>v'. cast_to_float (id_eccentricity (snd kr)) = Inr v' \<longrightarrow> pf_less v v'"
      "\<forall>kr \<in> set post. \<forall>v'. cast_to_float (id_eccentricity (snd kr)) = Inr v' \<longrightarrow> \<not> pf_less v' v"
    have 1: "(''R01'', r01) # ?rest = ((''R01'', r01) # pre) @ (k, r) # post" using a(1) by simp
    have 2: "fst (get_runkey_lowest_eccentricity h a) = Inr (k, v)" using res a(2) by simp
    have 4: "\<forall>kr \<in> set ((''R01'', r01) # pre).
               \<forall>v'. cast_to_float (id_eccentricity (snd kr)) = Inr v' \<longrightarrow> pf_less v v'"
      using a(4,5) v0(1) by simp
    show ?thesis
      apply (rule exI[of _ "(''R01'', r01) # pre"], rule exI[of _ k], rule exI[of _ r],
             rule exI[of _ post], rule exI[of _ v])
      by (insert 1 2 a(3) 4 a(6), intro conjI; assumption)
  qed
qed

text \<open>
  Claim C8. A run replaces the current best only with a strictly smaller eccentricity. In the
  loop, a run whose eccentricity equals that of the current best leaves the current best as
  it is, and the scan goes on. So among runs with the same lowest value the first in
  iteration order (the reference run first) is returned: when every run has a numeric
  eccentricity, the run returned is preceded, in that order, only by runs with strictly
  greater eccentricity, and no run after it is smaller.
\<close>

theorem ties_keep_first_run:
  "(cast_to_float (id_eccentricity r) = Inr v \<and> pf_eq v e \<longrightarrow>
      scan_runs rk e ((k, r) # rest) = scan_runs rk e rest) \<and>
   (map_of (h ! a) ''R01'' = Some r01 \<and>
    (\<forall>kr \<in> set (h ! a). \<exists>v. cast_to_float (id_eccentricity (snd kr)) = Inr v \<and> \<not> isnan v) \<longrightarrow>
    (\<exists>pre k r post v.
       (''R01'', r01) # filter (\<lambda>kv. fst kv \<noteq> ''R01'') (h ! a) = pre @ (k, r) # post \<and>
       fst (get_runkey_lowest_eccentricity h a) = Inr (k, v) \<and>
       cast_to_float (id_eccentricity r) = Inr v \<and>
       (\<forall>kr \<in> set pre. \<forall>v'. cast_to_float (id_eccentricity (snd kr)) = Inr v' \<longrightarrow> pf_less v v') \<and>
       (\<forall>kr \<in> set post. \<forall>v'. cast_to_float (id_eccentricity (snd kr)) = Inr v' \<longrightarrow> \<not> pf_less v' v)))"
proof (intro conjI impI)
  assume "cast_to_float (id_eccentricity r) = Inr v \<and> pf_eq v e"
  then show "scan_runs rk e ((k, r) # rest) = scan_runs rk e rest"
    using scan_runs_tie_skipped by blast
next
  assume a: "map_of (h ! a) ''R01'' = Some r01 \<and>
    (\<forall>kr \<in> set (h ! a). \<exists>v. cast_to_float (id_eccentricity (snd kr)) = Inr v \<and> \<not> isnan v)"
  show "\<exists>pre k r post v.
       (''R01'', r01) # filter (\<lambda>kv. fst kv \<noteq> ''R01'') (h ! a) = pre @ (k, r) # post \<and>
       fst (get_runkey_lowest_eccentricity h a) = Inr (k, v) \<and>
       cast_to_float (id_eccentricity r) = Inr v \<and>
       (\<forall>kr \<in> set pre. \<forall>v'. cast_to_float (id_eccentricity (snd kr)) = Inr v' \<longrightarrow> pf_less v v') \<and>
       (\<forall>kr \<in> set post. \<forall>v'. cast_to_float (id_eccentricity (snd kr)) = Inr v' \<longrightarrow> \<not> pf_less v' v)"
    by (rule first_minimum_run[OF a[THEN conjunct1] a[THEN conjunct2]])
qed

theorem ties_keep_first_run_witness:
  "map_of ([runs_tie] ! 0) ''R01'' = Some (run_with (Some ''2'')) \<and>
   cast_to_float (id_eccentricity (run_with (Some ''0.5''))) = Inr (Fin (1 / 2)) \<and>
   cast_to_float (id_eccentricity (run_with (Some ''5e-1''))) = Inr (Fin (1 / 2)) \<and>
   pf_eq (Fin (1 / 2)) (Fin (1 / 2)) \<and>
   scan_runs ''R02'' (Fin (1 / 2))
       ((''R03'', run_with (Some ''5e-1'')) # [(''R04'', run_with (Some ''1''))]) =
     scan_runs ''R02'' (Fin (1 / 2)) [(''R04'', run_with (Some ''1''))] \<and>
   fst (get_runkey_lowest_eccentricity [runs_tie] 0) = Inr (''R02'', Fin (1 / 2)) \<and>
   (\<exists>pre k r post v.
      (''R01'', run_with (Some ''2'')) # filter (\<lambda>kv. fst kv \<noteq> ''R01'') ([runs_tie] ! 0)
        = pre @ (k, r) # post \<and>
      fst (get_runkey_lowest_eccentricity [runs_tie] 0) = Inr (k, v) \<and>
      cast_to_float (id_eccentricity r) = Inr v \<and>
      (\<forall>kr \<in> set pre. \<forall>v'. cast_to_float (id_eccentricity (snd kr)) = Inr v' \<longrightarrow> pf_less v v') \<and>
      (\<forall>kr \<in> set post. \<forall>v'. cast_to_float (id_eccentricity (snd kr)) = Inr v' \<longrightarrow> \<not> pf_less v' v))"
proof -
  have r: "map_of ([runs_tie] ! 0) ''R01'' = Some (run_with (Some ''2''))"
    by (simp add: runs_tie_def)
  have v1: "cast_to_float (id_eccentricity (run_with (Some ''0.5''))) = Inr (Fin (1 / 2))"
    by code_simp
  have v2: "cast_to_float (id_eccentricity (run_with (Some ''2''))) = Inr (Fin 2)"
    by code_simp
  have v3: "cast_to_float (id_eccentricity (run_with (Some ''5e-1''))) = Inr (Fin (1 / 2))"
    by code_simp
  have v4: "cast_to_float (id_eccentricity (run_with (Some ''1''))) = Inr (Fin 1)"
    by code_simp
  have eq: "pf_eq (Fin (1 / 2)) (Fin (1 / 2))"
    by (simp add: pf_eq_def isnan_def)
  have all: "\<forall>kr \<in> set ([runs_tie] ! 0).
               \<exists>v. cast_to_float (id_eccentricity (snd kr)) = Inr v \<and> \<not> isnan v"
    using v1 v2 v3 v4 by (simp add: runs_tie_def isnan_def)
  have res: "fst (get_runkey_lowest_eccentricity [runs_tie] 0) = Inr (''R02'', Fin (1 / 2))"
    by code_simp
  note t = ties_keep_first_run[where r = "run_with (Some ''5e-1'')" and v = "Fin (1 / 2)"
      and e = "Fin (1 / 2)" and rk = "''R02''" and k = "''R03''"
      and rest = "[(''R04'', run_with (Some ''1''))]" and h = "[runs_tie]" and a = 0
      and ?r01.0 = "run_with (Some ''2'')"]
  have step: "scan_runs ''R02'' (Fin (1 / 2))
       ((''R03'', run_with (Some ''5e-1'')) # [(''R04'', run_with (Some ''1''))]) =
     scan_runs ''R02'' (Fin (1 / 2)) [(''R04'', run_with (Some ''1''))]"
    using t[THEN conjunct1] v3 eq by (simp only: simp_thms)
  have first: "\<exists>pre k r post v.
      (''R01'', run_with (Some ''2'')) # filter (\<lambda>kv. fst kv \<noteq> ''R01'') ([runs_tie] ! 0)
        = pre @ (k, r) # post \<and>
      fst (get_runkey_lowest_eccentricity [runs_tie] 0) = Inr (k, v) \<and>
      cast_to_float (id_eccentricity r) = Inr v \<and>
      (\<forall>kr \<in> set pre. \<forall>v'. cast_to_float (id_eccentricity (snd kr)) = Inr v' \<longrightarrow> pf_less v v') \<and>
      (\<forall>kr \<in> set post. \<forall>v'. cast_to_float (id_eccentricity (snd kr)) = Inr v' \<longrightarrow> \<not> pf_less v' v)"
    using t[THEN conjunct2] r all by (simp only: simp_thms)
  show ?thesis using r v1 v3 eq step res first by (intro conjI)
qed

subsection \<open>The channel with the highest extraction radius\<close>

lemma py_max_from_Max: "py_max_from m xs = Max (set (m # xs))"
proof (induction xs arbitrary: m)
  case Nil
  then show ?case by simp
next
  case (Cons x xs)
  have "Max (set (m # x # xs)) = Max (set ((if m < x then x else m) # xs))"
    by (cases "xs = []") (auto simp: max_def not_less)
  then show ?case using Cons.IH by simp
qed

subsection \<open>Strings of digits\<close>

lemma digit_not_special:
  "is_digit c \<Longrightarrow> \<not> c_isspace c \<and> c \<noteq> CHR ''_'' \<and> c \<noteq> CHR ''-'' \<and> c \<noteq> CHR ''+''"
  by (auto simp: is_digit_def c_isspace_def)

lemma strip_c_digits: "list_all is_digit ds \<Longrightarrow> strip_c ds = ds"
proof (cases "ds = []")
  case True
  then show ?thesis by (simp add: strip_c_def)
next
  case False
  assume d: "list_all is_digit ds"
  have "is_digit (hd ds)" "is_digit (last ds)"
    using d False by (simp_all add: list_all_iff)
  then have h: "\<not> c_isspace (hd ds)" "\<not> c_isspace (hd (rev ds))"
    using False by (simp_all add: digit_not_special hd_rev)
  have 1: "dropWhile c_isspace ds = ds" using h(1) by (simp add: dropWhile_eq_self_iff)
  have 2: "dropWhile c_isspace (rev ds) = rev ds" using h(2) by (simp add: dropWhile_eq_self_iff)
  show ?thesis by (simp add: strip_c_def 1 2)
qed

lemma underscores_ok_digits: "list_all is_digit ds \<Longrightarrow> underscores_ok p ds"
  by (induction ds arbitrary: p) (auto simp: digit_not_special)

lemma filter_underscore_digits: "list_all is_digit ds \<Longrightarrow> filter (\<lambda>c. c \<noteq> CHR ''_'') ds = ds"
  by (induction ds) (auto simp: digit_not_special)

lemma py_int_digits:
  assumes "list_all is_digit ds" "ds \<noteq> []"
  shows "py_int ds = Inr (int_of_digits ds)"
proof -
  obtain d rest where ds: "ds = d # rest" using assms(2) by (cases ds) auto
  have "is_digit d" using assms(1) ds by simp
  then have "split_sign ds = (False, ds)"
    using ds by (simp add: split_sign_def digit_not_special)
  then show ?thesis
    using assms by (simp add: py_int_def strip_c_digits underscores_ok_digits filter_underscore_digits)
qed

lemma slice_m9_m4_radius:
  "length ds = 5 \<Longrightarrow> length suf = 4 \<Longrightarrow> slice_m9_m4 (pre @ ds @ suf) = ds"
  by (simp add: slice_m9_m4_def)

text \<open>
  Claim C3. For a non-empty dict of channels, \<^verbatim>\<open>_get_highest_r_extraction_\<close> chooses the
  greatest name in the lexicographic order of strings. If that name contains \<^verbatim>\<open>Inf\<close> the
  radius is 99999; otherwise it is \<^verbatim>\<open>int\<close> of the slice \<^verbatim>\<open>[-9:-4]\<close> of the name (and the
  call raises what \<^verbatim>\<open>int\<close> raises when the slice is no integer literal). For a name that
  ends in five digits and four more characters, that is the number the five digits spell.
  The witness has the two examples of the claim.
\<close>

theorem highest_extraction_is_max:
  "extractions \<noteq> [] \<Longrightarrow>
     get_highest_r_extraction extractions =
       (if str_contains ''Inf'' (Max (fst ` set extractions))
        then Inr (Max (fst ` set extractions), 99999)
        else (case py_int (slice_m9_m4 (Max (fst ` set extractions))) of
                Inl e \<Rightarrow> Inl e
              | Inr rext \<Rightarrow> Inr (Max (fst ` set extractions), rext))) \<and>
     (\<forall>pre ds suf.
        Max (fst ` set extractions) = pre @ ds @ suf \<and> length ds = 5 \<and> length suf = 4 \<and>
        list_all is_digit ds \<and> \<not> str_contains ''Inf'' (pre @ ds @ suf) \<longrightarrow>
        get_highest_r_extraction extractions = Inr (pre @ ds @ suf, int_of_digits ds))"
proof -
  assume ne: "extractions \<noteq> []"
  then obtain x rest where x: "map fst extractions = x # rest"
    by (cases extractions) auto
  have "set (x # rest) = fst ` set extractions" using x by (metis set_map)
  then have m: "py_max (map fst extractions) = Inr (Max (fst ` set extractions))"
    using x by (simp add: py_max_def py_max_from_Max del: set_simps)
  have 1: "get_highest_r_extraction extractions =
       (if str_contains ''Inf'' (Max (fst ` set extractions))
        then Inr (Max (fst ` set extractions), 99999)
        else (case py_int (slice_m9_m4 (Max (fst ` set extractions))) of
                Inl e \<Rightarrow> Inl e
              | Inr rext \<Rightarrow> Inr (Max (fst ` set extractions), rext)))"
    by (simp add: get_highest_r_extraction_def m)
  have 2: "get_highest_r_extraction extractions = Inr (pre @ ds @ suf, int_of_digits ds)"
    if "Max (fst ` set extractions) = pre @ ds @ suf" "length ds = 5" "length suf = 4"
       "list_all is_digit ds" "\<not> str_contains ''Inf'' (pre @ ds @ suf)" for pre ds suf
  proof -
    have "ds \<noteq> []" using that(2) by auto
    then have "py_int (slice_m9_m4 (pre @ ds @ suf)) = Inr (int_of_digits ds)"
      using that(2,3,4) by (simp add: slice_m9_m4_radius py_int_digits)
    then show ?thesis using 1 that(1,5) by simp
  qed
  show ?thesis using 1 2 by blast
qed

theorem highest_extraction_is_max_witness:
  "channels_finite \<noteq> [] \<and> channels_inf \<noteq> [] \<and>
   Max (fst ` set channels_finite) = ''Rh_l2_m2_r00250.txt'' \<and>
   Max (fst ` set channels_inf) = ''Rh_l2_m2_rInf.txt'' \<and>
   get_highest_r_extraction channels_finite = Inr (''Rh_l2_m2_r00250.txt'', 250) \<and>
   get_highest_r_extraction channels_inf = Inr (''Rh_l2_m2_rInf.txt'', 99999)"
proof -
  have n1: "channels_finite \<noteq> []" and n2: "channels_inf \<noteq> []"
    by (simp_all add: channels_finite_def channels_inf_def)
  have g1: "get_highest_r_extraction channels_finite = Inr (''Rh_l2_m2_r00250.txt'', 250)"
    by code_simp
  have g2: "get_highest_r_extraction channels_inf = Inr (''Rh_l2_m2_rInf.txt'', 99999)"
    by code_simp
  have i1: "\<not> str_contains ''Inf'' ''Rh_l2_m2_r00250.txt''" by code_simp
  have i2: "str_contains ''Inf'' ''Rh_l2_m2_rInf.txt''" by code_simp
  have l1: "''Rh_l2_m2_r00100.txt'' < ''Rh_l2_m2_r00250.txt''" by code_simp
  have l2: "''Rh_l2_m2_r00100.txt'' < ''Rh_l2_m2_rInf.txt''" by code_simp
  have m1: "Max (fst ` set channels_finite) = ''Rh_l2_m2_r00250.txt''"
    using l1 by (simp add: channels_finite_def max_def)
  have m2: "Max (fst ` set channels_inf) = ''Rh_l2_m2_rInf.txt''"
    using l2 by (simp add: channels_inf_def max_def)
  show ?thesis
    using highest_extraction_is_max[OF n1] highest_extraction_is_max[OF n2] n1 n2 m1 m2 g1 g2
    by simp
qed

subsection \<open>Reading the eccentricity of a saved strain\<close>








subsection \<open>The index of saved strains\<close>

lemma entry_of_upd_new:
  "idx key = None \<Longrightarrow>
   entry_of (idx(key \<mapsto> Map.empty(run \<mapsto> e))) k r =
     (if k = key \<and> r = run then Some e else entry_of idx k r)"
  by (auto simp: entry_of_def)

lemma entry_of_upd_old:
  "idx key = Some d \<Longrightarrow>
   entry_of (idx(key \<mapsto> d(run \<mapsto> e))) k r =
     (if k = key \<and> r = run then Some e else entry_of idx k r)"
  by (auto simp: entry_of_def)

lemma look_step_cases:
  assumes "look_step t idx f = Inr idx'"
  obtains (put) ecc rext where "radius_of f = Inr rext"
      "\<And>k r. entry_of idx' k r =
         (if k = sim_key f \<and> r = run_key f
          then Some \<lparr>art_file = f, eccentricity = ecc, r_extraction = rext\<rparr>
          else entry_of idx k r)"
      "\<And>old. entry_of idx (sim_key f) (run_key f) = Some old \<Longrightarrow>
         \<exists>r0. radius_of (art_file old) = Inr r0 \<and> r0 \<le> rext"
  | (skip) rext old r0 where "radius_of f = Inr rext" "idx' = idx"
      "entry_of idx (sim_key f) (run_key f) = Some old"
      "radius_of (art_file old) = Inr r0" "rext < r0"
proof -
  from assms have len: "\<not> length f < 3"
    by (auto simp: look_step_def split: if_splits)
  from assms len obtain ecc where ecc: "read_eccentricity t (butlast f @ [''metadata.txt'']) = Inr ecc"
    by (cases "read_eccentricity t (butlast f @ [''metadata.txt''])") (auto simp: look_step_def Let_def)
  from assms len ecc obtain rext where rext: "radius_of f = Inr rext"
    by (cases "radius_of f") (auto simp: look_step_def Let_def)
  let ?e = "\<lparr>art_file = f, eccentricity = ecc, r_extraction = rext\<rparr>"
  show ?thesis
  proof (cases "idx (sim_key f)")
    case None
    then have "idx' = idx(sim_key f \<mapsto> Map.empty(run_key f \<mapsto> ?e))"
      using assms len ecc rext by (simp add: look_step_def Let_def)
    then have 1: "\<And>k r. entry_of idx' k r =
         (if k = sim_key f \<and> r = run_key f then Some ?e else entry_of idx k r)"
      using None by (simp add: entry_of_upd_new)
    have 2: "\<And>old. entry_of idx (sim_key f) (run_key f) = Some old \<Longrightarrow>
         \<exists>r0. radius_of (art_file old) = Inr r0 \<and> r0 \<le> rext"
      using None by (simp add: entry_of_def)
    show ?thesis using rext 1 2 by (rule put)
  next
    case (Some d)
    show ?thesis
    proof (cases "d (run_key f)")
      case None
      then have "idx' = idx(sim_key f \<mapsto> d(run_key f \<mapsto> ?e))"
        using assms len ecc rext Some by (simp add: look_step_def Let_def)
      then have 1: "\<And>k r. entry_of idx' k r =
           (if k = sim_key f \<and> r = run_key f then Some ?e else entry_of idx k r)"
        using Some by (simp add: entry_of_upd_old)
      have 2: "\<And>old. entry_of idx (sim_key f) (run_key f) = Some old \<Longrightarrow>
           \<exists>r0. radius_of (art_file old) = Inr r0 \<and> r0 \<le> rext"
        using None Some by (simp add: entry_of_def)
      show ?thesis using rext 1 2 by (rule put)
    next
      case old: (Some old)
      then have eo: "entry_of idx (sim_key f) (run_key f) = Some old"
        using Some by (simp add: entry_of_def)
      from assms len ecc rext Some old obtain r0 where r0: "radius_of (art_file old) = Inr r0"
        by (cases "radius_of (art_file old)") (auto simp: look_step_def Let_def)
      show ?thesis
      proof (cases "rext < r0")
        case True
        then have "idx' = idx"
          using assms len ecc rext Some old r0 by (simp add: look_step_def Let_def)
        then show ?thesis using rext eo r0 True by (intro skip)
      next
        case False
        then have "idx' = idx(sim_key f \<mapsto> d(run_key f \<mapsto> ?e))"
          using assms len ecc rext Some old r0 by (simp add: look_step_def Let_def)
        then have 1: "\<And>k r. entry_of idx' k r =
             (if k = sim_key f \<and> r = run_key f then Some ?e else entry_of idx k r)"
          using Some by (simp add: entry_of_upd_old)
        have 2: "\<And>old'. entry_of idx (sim_key f) (run_key f) = Some old' \<Longrightarrow>
             \<exists>r0. radius_of (art_file old') = Inr r0 \<and> r0 \<le> rext"
          using eo r0 False by auto
        show ?thesis using rext 1 2 by (rule put)
      qed
    qed
  qed
qed

lemma look_loop_append:
  "look_loop t idx (xs @ ys) =
     (case look_loop t idx xs of Inl e \<Rightarrow> Inl e | Inr idx' \<Rightarrow> look_loop t idx' ys)"
  by (induction xs arbitrary: idx) (auto split: sum.splits)

lemma look_step_other:
  assumes "look_step t idx f = Inr idx'" "\<not> (sim_key f = key \<and> run_key f = run)"
  shows "entry_of idx' key run = entry_of idx key run"
  using assms(1)
proof (cases rule: look_step_cases)
  case (put ecc rext)
  show ?thesis using put(2)[of key run] assms(2) by auto
next
  case (skip rext old r0)
  then show ?thesis by simp
qed

lemma look_loop_other:
  "look_loop t idx fs = Inr idx' \<Longrightarrow>
   \<forall>f \<in> set fs. \<not> (sim_key f = key \<and> run_key f = run) \<Longrightarrow>
   entry_of idx' key run = entry_of idx key run"
proof (induction fs arbitrary: idx)
  case Nil
  then show ?case by simp
next
  case (Cons f fs)
  from Cons.prems(1) obtain idx1 where s: "look_step t idx f = Inr idx1"
    and l: "look_loop t idx1 fs = Inr idx'"
    by (cases "look_step t idx f") auto
  have "entry_of idx1 key run = entry_of idx key run"
    using s Cons.prems(2) by (intro look_step_other) auto
  moreover have "entry_of idx' key run = entry_of idx1 key run"
    using l Cons.prems(2) by (intro Cons.IH) auto
  ultimately show ?case by simp
qed

lemma index_inv_entry:
  "index_inv S idx \<Longrightarrow> entry_of idx key run = Some a \<Longrightarrow>
     art_file a \<in> S \<and> sim_key (art_file a) = key \<and> run_key (art_file a) = run \<and>
     radius_of (art_file a) = Inr (r_extraction a) \<and>
     (\<forall>g \<in> S. sim_key g = key \<and> run_key g = run \<longrightarrow>
        (\<exists>r. radius_of g = Inr r \<and> r \<le> r_extraction a))"
  unfolding index_inv_def by blast

lemma index_inv_covered:
  "index_inv S idx \<Longrightarrow> g \<in> S \<Longrightarrow> \<exists>a. entry_of idx (sim_key g) (run_key g) = Some a"
  unfolding index_inv_def by blast

lemma index_inv_empty: "index_inv {} Map.empty"
  by (simp add: index_inv_def entry_of_def)

lemma index_inv_step:
  assumes inv: "index_inv S idx" and step: "look_step t idx f = Inr idx'"
  shows "index_inv (insert f S) idx'"
  using step
proof (cases rule: look_step_cases)
  case (put ecc rext)
  let ?e = "\<lparr>art_file = f, eccentricity = ecc, r_extraction = rext\<rparr>"
  have A: "art_file a \<in> insert f S \<and> sim_key (art_file a) = key \<and> run_key (art_file a) = run \<and>
         radius_of (art_file a) = Inr (r_extraction a) \<and>
         (\<forall>g \<in> insert f S. sim_key g = key \<and> run_key g = run \<longrightarrow>
            (\<exists>r. radius_of g = Inr r \<and> r \<le> r_extraction a))"
    if a: "entry_of idx' key run = Some a" for key run a
  proof (cases "key = sim_key f \<and> run = run_key f")
    case True
    then have ae: "a = ?e" using a put(2)[of key run] by simp
    have "\<exists>r. radius_of g = Inr r \<and> r \<le> rext"
      if g: "g \<in> S" "sim_key g = key \<and> run_key g = run" for g
    proof -
      from index_inv_covered[OF inv g(1)] obtain old
        where old: "entry_of idx (sim_key f) (run_key f) = Some old"
        using g(2) True by auto
      from put(3)[OF old] obtain r0 where r0: "radius_of (art_file old) = Inr r0" "r0 \<le> rext"
        by blast
      from index_inv_entry[OF inv old] g True
      obtain r where r: "radius_of g = Inr r" "r \<le> r_extraction old"
        and "radius_of (art_file old) = Inr (r_extraction old)"
        by blast
      then show ?thesis using r0 by auto
    qed
    then show ?thesis using ae True put(1) by auto
  next
    case False
    then have "entry_of idx key run = Some a" using a put(2)[of key run] by (auto split: if_splits)
    from index_inv_entry[OF inv this] show ?thesis using False by auto
  qed
  have B: "entry_of idx' (sim_key g) (run_key g) \<noteq> None" if "g \<in> insert f S" for g
  proof (cases "sim_key g = sim_key f \<and> run_key g = run_key f")
    case True
    then show ?thesis using put(2)[of "sim_key g" "run_key g"] by simp
  next
    case False
    then have "g \<in> S" using that by auto
    from index_inv_covered[OF inv this] show ?thesis
      using False put(2)[of "sim_key g" "run_key g"] by auto
  qed
  show ?thesis unfolding index_inv_def using A B by blast
next
  case (skip rext old r0)
  from index_inv_entry[OF inv skip(3)] skip(4)
  have ro: "r_extraction old = r0" by simp
  have A: "art_file a \<in> insert f S \<and> sim_key (art_file a) = key \<and> run_key (art_file a) = run \<and>
         radius_of (art_file a) = Inr (r_extraction a) \<and>
         (\<forall>g \<in> insert f S. sim_key g = key \<and> run_key g = run \<longrightarrow>
            (\<exists>r. radius_of g = Inr r \<and> r \<le> r_extraction a))"
    if a: "entry_of idx' key run = Some a" for key run a
  proof -
    have a': "entry_of idx key run = Some a" using a skip(2) by simp
    have "\<exists>r. radius_of f = Inr r \<and> r \<le> r_extraction a"
      if "sim_key f = key \<and> run_key f = run"
    proof -
      have "a = old" using a' skip(3) that by simp
      then show ?thesis using skip(1,5) ro by simp
    qed
    then show ?thesis using index_inv_entry[OF inv a'] by auto
  qed
  have B: "entry_of idx' (sim_key g) (run_key g) \<noteq> None" if "g \<in> insert f S" for g
    using that index_inv_covered[OF inv, of g] skip(2,3) by auto
  show ?thesis unfolding index_inv_def using A B by blast
qed

lemma index_inv_loop:
  "index_inv S idx \<Longrightarrow> look_loop t idx fs = Inr idx' \<Longrightarrow> index_inv (S \<union> set fs) idx'"
proof (induction fs arbitrary: S idx)
  case Nil
  then show ?case by simp
next
  case (Cons f fs)
  from Cons.prems(2) obtain idx1 where s: "look_step t idx f = Inr idx1"
    and l: "look_loop t idx1 fs = Inr idx'"
    by (cases "look_step t idx f") auto
  have "index_inv (insert f S) idx1" using Cons.prems(1) s by (rule index_inv_step)
  then have "index_inv (insert f S \<union> set fs) idx'" using l by (rule Cons.IH)
  then show ?case by simp
qed

lemma index_inv_build:
  "look_for_existing_strains t = Inr idx \<Longrightarrow> index_inv (set (rglob_Rh_txt t)) idx"
  using index_inv_loop[OF index_inv_empty, of t "rglob_Rh_txt t" idx]
  by (simp add: look_for_existing_strains_def)

lemma look_loop_append_Inr:
  "look_loop t idx (xs @ ys) = Inr idx'' \<Longrightarrow>
   \<exists>idx'. look_loop t idx xs = Inr idx' \<and> look_loop t idx' ys = Inr idx''"
  by (simp add: look_loop_append split: sum.splits)

lemma look_loop_Cons_Inr:
  "look_loop t idx (f # fs) = Inr idx'' \<Longrightarrow>
   \<exists>idx'. look_step t idx f = Inr idx' \<and> look_loop t idx' fs = Inr idx''"
  by (simp split: sum.splits)

lemma build_succeeds:
  "(case look_for_existing_strains t of Inl _ \<Rightarrow> False | Inr _ \<Rightarrow> True) \<Longrightarrow>
   \<exists>idx. look_for_existing_strains t = Inr idx"
  by (cases "look_for_existing_strains t") auto

lemma example_keys:
  "sim_key strain_r100 = ''BAM:0001''" "run_key strain_r100 = ''R01''"
  "sim_key strain_r250 = ''BAM:0001''" "run_key strain_r250 = ''R01''"
  "sim_key strain_r100_bis = ''BAM:0001''" "run_key strain_r100_bis = ''R01''"
  by code_simp+

lemma example_radii:
  "radius_of strain_r100 = Inr 100" "radius_of strain_r250 = Inr 250"
  "radius_of strain_r100_bis = Inr 100"
  by code_simp+

text \<open>
  Claim C2. The scan finds two files of the same simulation and run, with different radii,
  and no other file of that simulation and run. If \<^verbatim>\<open>_look_for_existing_strains\<close>
  returns an index, its entry for that simulation and run (a dict has one value for a key)
  is made from the file with the larger radius. The order of the scan is not assumed: the
  statement holds for every order in which \<^verbatim>\<open>rglob\<close> may yield the files, and the witness
  has both orders of the radii 100 and 250. The tree is only read, so the other file stays
  where it is.
\<close>

theorem larger_radius_is_kept:
  assumes ok: "look_for_existing_strains t = Inr idx"
    and f1: "f1 \<in> set (rglob_Rh_txt t)" and f2: "f2 \<in> set (rglob_Rh_txt t)"
    and same: "sim_key f1 = sim_key f2" "run_key f1 = run_key f2"
    and only: "\<forall>g \<in> set (rglob_Rh_txt t).
                 sim_key g = sim_key f2 \<and> run_key g = run_key f2 \<longrightarrow> g = f1 \<or> g = f2"
    and r: "radius_of f1 = Inr r1" "radius_of f2 = Inr r2" "r1 < r2"
  shows "\<exists>a. entry_of idx (sim_key f2) (run_key f2) = Some a \<and> art_file a = f2 \<and>
             r_extraction a = r2"
proof -
  have inv: "index_inv (set (rglob_Rh_txt t)) idx" using ok by (rule index_inv_build)
  from index_inv_covered[OF inv f2] obtain a
    where a: "entry_of idx (sim_key f2) (run_key f2) = Some a" by blast
  from index_inv_entry[OF inv a]
  have af: "art_file a \<in> set (rglob_Rh_txt t)"
    and ak: "sim_key (art_file a) = sim_key f2 \<and> run_key (art_file a) = run_key f2"
    and ar: "radius_of (art_file a) = Inr (r_extraction a)"
    and amax: "\<forall>g \<in> set (rglob_Rh_txt t). sim_key g = sim_key f2 \<and> run_key g = run_key f2 \<longrightarrow>
                (\<exists>r. radius_of g = Inr r \<and> r \<le> r_extraction a)"
    by blast+
  from amax f2 r(2) have le: "r2 \<le> r_extraction a" by auto
  from only af ak have "art_file a = f1 \<or> art_file a = f2" by blast
  then have "art_file a = f2"
  proof
    assume "art_file a = f1"
    then have "r_extraction a = r1" using ar r(1) by simp
    then show ?thesis using le r(3) by simp
  qed
  moreover from this have "r_extraction a = r2" using ar r(2) by simp
  ultimately show ?thesis using a by blast
qed

theorem larger_radius_is_kept_witness:
  "(\<exists>idx a. look_for_existing_strains (tree_of [strain_r100, metadata_file, strain_r250]) = Inr idx \<and>
      entry_of idx ''BAM:0001'' ''R01'' = Some a \<and> art_file a = strain_r250 \<and> r_extraction a = 250) \<and>
   (\<exists>idx a. look_for_existing_strains (tree_of [strain_r250, metadata_file, strain_r100]) = Inr idx \<and>
      entry_of idx ''BAM:0001'' ''R01'' = Some a \<and> art_file a = strain_r250 \<and> r_extraction a = 250)"
proof -
  let ?up = "tree_of [strain_r100, metadata_file, strain_r250]"
  let ?down = "tree_of [strain_r250, metadata_file, strain_r100]"
  have lt: "(100::int) < 250" by simp
  have gu: "rglob_Rh_txt ?up = [strain_r100, strain_r250]" by code_simp
  have gd: "rglob_Rh_txt ?down = [strain_r250, strain_r100]" by code_simp
  have "case look_for_existing_strains ?up of Inl _ \<Rightarrow> False | Inr _ \<Rightarrow> True" by code_simp
  then obtain iu where ou: "look_for_existing_strains ?up = Inr iu"
    using build_succeeds by blast
  have "case look_for_existing_strains ?down of Inl _ \<Rightarrow> False | Inr _ \<Rightarrow> True" by code_simp
  then obtain idn where od: "look_for_existing_strains ?down = Inr idn"
    using build_succeeds by blast
  have u1: "strain_r100 \<in> set (rglob_Rh_txt ?up)" and u2: "strain_r250 \<in> set (rglob_Rh_txt ?up)"
    and uo: "\<forall>g \<in> set (rglob_Rh_txt ?up).
               sim_key g = sim_key strain_r250 \<and> run_key g = run_key strain_r250 \<longrightarrow>
               g = strain_r100 \<or> g = strain_r250"
    by (simp_all add: gu)
  have d1: "strain_r100 \<in> set (rglob_Rh_txt ?down)" and d2: "strain_r250 \<in> set (rglob_Rh_txt ?down)"
    and do: "\<forall>g \<in> set (rglob_Rh_txt ?down).
               sim_key g = sim_key strain_r250 \<and> run_key g = run_key strain_r250 \<longrightarrow>
               g = strain_r100 \<or> g = strain_r250"
    by (simp_all add: gd)
  have sk: "sim_key strain_r100 = sim_key strain_r250" and rk: "run_key strain_r100 = run_key strain_r250"
    by (simp_all add: example_keys)
  from larger_radius_is_kept[OF ou u1 u2 sk rk uo example_radii(1) example_radii(2) lt]
  have a: "\<exists>a. entry_of iu ''BAM:0001'' ''R01'' = Some a \<and> art_file a = strain_r250 \<and>
             r_extraction a = 250"
    by (simp add: example_keys)
  from larger_radius_is_kept[OF od d1 d2 sk rk do example_radii(1) example_radii(2) lt]
  have b: "\<exists>a. entry_of idn ''BAM:0001'' ''R01'' = Some a \<and> art_file a = strain_r250 \<and>
             r_extraction a = 250"
    by (simp add: example_keys)
  show ?thesis using ou od a b by blast
qed

text \<open>
  Claim C9. Of two files of the same simulation and run, \<open>f1\<close> is scanned before
  \<open>f2\<close>, and there is no other file of that simulation and run. The later file is
  skipped only if its radius is strictly smaller; with equal radii the entry is made from
  the later file \<open>f2\<close>. In the witness two files with radius 100 are scanned in either
  order, and the index names a different file each time.
\<close>

theorem equal_radius_later_file_replaces:
  assumes ok: "look_for_existing_strains t = Inr idx"
    and scan: "rglob_Rh_txt t = A @ f1 # B @ f2 # C"
    and same: "sim_key f1 = sim_key f2" "run_key f1 = run_key f2"
    and only: "\<forall>g \<in> set (A @ B @ C). \<not> (sim_key g = sim_key f2 \<and> run_key g = run_key f2)"
    and r: "radius_of f1 = Inr r1" "radius_of f2 = Inr r2"
  shows "\<exists>a. entry_of idx (sim_key f2) (run_key f2) = Some a \<and>
             art_file a = (if r2 < r1 then f1 else f2)"
proof -
  let ?k = "sim_key f2" and ?r = "run_key f2"
  have oA: "\<forall>g \<in> set A. \<not> (sim_key g = ?k \<and> run_key g = ?r)"
    and oB: "\<forall>g \<in> set B. \<not> (sim_key g = ?k \<and> run_key g = ?r)"
    and oC: "\<forall>g \<in> set C. \<not> (sim_key g = ?k \<and> run_key g = ?r)"
    using only by auto
  have "look_loop t Map.empty (A @ f1 # B @ f2 # C) = Inr idx"
    using ok scan by (simp add: look_for_existing_strains_def)
  from look_loop_append_Inr[OF this] obtain iA
    where lA: "look_loop t Map.empty A = Inr iA" and l1: "look_loop t iA (f1 # B @ f2 # C) = Inr idx"
    by blast
  from look_loop_Cons_Inr[OF l1] obtain i1
    where s1: "look_step t iA f1 = Inr i1" and l2: "look_loop t i1 (B @ f2 # C) = Inr idx"
    by blast
  from look_loop_append_Inr[OF l2] obtain iB
    where lB: "look_loop t i1 B = Inr iB" and l3: "look_loop t iB (f2 # C) = Inr idx"
    by blast
  from look_loop_Cons_Inr[OF l3] obtain i2
    where s2: "look_step t iB f2 = Inr i2" and lC: "look_loop t i2 C = Inr idx"
    by blast
  have eA: "entry_of iA ?k ?r = None"
    using look_loop_other[OF lA oA] by (simp add: entry_of_def)
  from s1 obtain e1 where e1: "entry_of i1 ?k ?r = Some e1" "art_file e1 = f1"
  proof (cases rule: look_step_cases)
    case (put ecc rext)
    show ?thesis using put(2)[of ?k ?r] same by (intro that[of "\<lparr>art_file = f1, eccentricity = ecc, r_extraction = rext\<rparr>"]) auto
  next
    case (skip rext old r0)
    then show ?thesis using eA same by simp
  qed
  have eB: "entry_of iB ?k ?r = Some e1"
    using look_loop_other[OF lB oB] e1(1) by simp
  from s2 have e2: "\<exists>a. entry_of i2 ?k ?r = Some a \<and> art_file a = (if r2 < r1 then f1 else f2)"
  proof (cases rule: look_step_cases)
    case (put ecc rext)
    from put(3)[OF eB] e1(2) r(1) have "r1 \<le> rext" by auto
    moreover have "rext = r2" using put(1) r(2) by simp
    ultimately have "\<not> r2 < r1" by simp
    then show ?thesis using put(2)[of ?k ?r] by simp
  next
    case (skip rext old r0)
    have "old = e1" using skip(3) eB by simp
    then have "r0 = r1" using skip(4) e1(2) r(1) by simp
    moreover have "rext = r2" using skip(1) r(2) by simp
    ultimately have "r2 < r1" using skip(5) by simp
    then show ?thesis using skip(2) eB e1(2) by simp
  qed
  have "entry_of idx ?k ?r = entry_of i2 ?k ?r"
    using lC oC by (rule look_loop_other)
  then show ?thesis using e2 by simp
qed

theorem equal_radius_later_file_replaces_witness:
  "strain_r100 \<noteq> strain_r100_bis \<and>
   radius_of strain_r100 = Inr 100 \<and> radius_of strain_r100_bis = Inr 100 \<and>
   (\<exists>idx a. look_for_existing_strains (tree_of [strain_r100, metadata_file, strain_r100_bis]) = Inr idx \<and>
      entry_of idx ''BAM:0001'' ''R01'' = Some a \<and> art_file a = strain_r100_bis) \<and>
   (\<exists>idx a. look_for_existing_strains (tree_of [strain_r100_bis, metadata_file, strain_r100]) = Inr idx \<and>
      entry_of idx ''BAM:0001'' ''R01'' = Some a \<and> art_file a = strain_r100)"
proof -
  let ?ab = "tree_of [strain_r100, metadata_file, strain_r100_bis]"
  let ?ba = "tree_of [strain_r100_bis, metadata_file, strain_r100]"
  have ne: "strain_r100 \<noteq> strain_r100_bis" by code_simp
  have gab: "rglob_Rh_txt ?ab = [] @ strain_r100 # [] @ strain_r100_bis # []" by code_simp
  have gba: "rglob_Rh_txt ?ba = [] @ strain_r100_bis # [] @ strain_r100 # []" by code_simp
  have "case look_for_existing_strains ?ab of Inl _ \<Rightarrow> False | Inr _ \<Rightarrow> True" by code_simp
  then obtain iab where oab: "look_for_existing_strains ?ab = Inr iab"
    using build_succeeds by blast
  have "case look_for_existing_strains ?ba of Inl _ \<Rightarrow> False | Inr _ \<Rightarrow> True" by code_simp
  then obtain iba where oba: "look_for_existing_strains ?ba = Inr iba"
    using build_succeeds by blast
  have sk: "sim_key strain_r100 = sim_key strain_r100_bis"
    and rk: "run_key strain_r100 = run_key strain_r100_bis"
    by (simp_all add: example_keys)
  have none1: "\<forall>g \<in> set ([] @ [] @ []). \<not> (sim_key g = sim_key strain_r100_bis \<and> run_key g = run_key strain_r100_bis)"
    and none2: "\<forall>g \<in> set ([] @ [] @ []). \<not> (sim_key g = sim_key strain_r100 \<and> run_key g = run_key strain_r100)"
    by simp_all
  from equal_radius_later_file_replaces[OF oab gab sk rk none1 example_radii(1) example_radii(3)]
  have a: "\<exists>a. entry_of iab ''BAM:0001'' ''R01'' = Some a \<and> art_file a = strain_r100_bis"
    by (simp add: example_keys)
  from equal_radius_later_file_replaces[OF oba gba sk[symmetric] rk[symmetric] none2
        example_radii(3) example_radii(1)]
  have b: "\<exists>a. entry_of iba ''BAM:0001'' ''R01'' = Some a \<and> art_file a = strain_r100"
    by (simp add: example_keys)
  show ?thesis using ne example_radii(1) example_radii(3) oab oba a b by blast
qed

subsection \<open>Downloading a simulation that is already there\<close>

lemma downloaded_emit [simp]: "downloaded (emit evs m) = downloaded m"
  by (simp add: emit_def)

lemma download_one_skip:
  "downloaded m skey \<noteq> None \<Longrightarrow> \<not> overwrite \<Longrightarrow>
   download_one c keep_h5 overwrite prot lfs verbose m skey =
     (None, if verbose then emit [Print (skey @ '' already downloaded, skipping.'')] m else m)"
  by (simp add: download_one_def)

lemma download_one_records:
  assumes "download_one c keep_h5 overwrite prot lfs verbose m skey = (None, m')"
  shows "downloaded m' skey \<noteq> None"
proof (cases "\<not> overwrite \<and> downloaded m skey \<noteq> None")
  case True
  then show ?thesis using assms by (auto simp: download_one_def split: if_splits)
next
  case False
  then show ?thesis using assms
    by (auto simp: download_one_def Let_def
             split: option.splits sum.splits prod.splits if_splits)
qed

text \<open>
  Claim C7. With \<^verbatim>\<open>overwrite\<close> false, a simulation key that is in \<^verbatim>\<open>self.downloaded\<close> is
  skipped: the loop goes on to the remaining keys with the same manager, to which at most the
  message of the skip was printed. So there is no sync, no file written, nothing removed and
  no change of \<^verbatim>\<open>self.downloaded\<close> for that key. After a call for one key that returned,
  a second call for the same key does only that, and leaves \<^verbatim>\<open>self.downloaded\<close> as it is.
\<close>

theorem download_skips_cached:
  "(downloaded m skey \<noteq> None \<and> \<not> overwrite \<longrightarrow>
      download_strains c (skey # simkeys) keep_h5 overwrite prot lfs verbose m =
        download_strains c simkeys keep_h5 overwrite prot lfs verbose
          (if verbose then emit [Print (skey @ '' already downloaded, skipping.'')] m else m)) \<and>
   (download_strains c [skey] keep_h5 False prot lfs verbose m = (None, m') \<longrightarrow>
      download_strains c [skey] keep_h5 False prot lfs verbose m' =
        (None, if verbose then emit [Print (skey @ '' already downloaded, skipping.'')] m' else m') \<and>
      downloaded (snd (download_strains c [skey] keep_h5 False prot lfs verbose m')) = downloaded m')"
proof (intro conjI impI)
  assume "downloaded m skey \<noteq> None \<and> \<not> overwrite"
  then show "download_strains c (skey # simkeys) keep_h5 overwrite prot lfs verbose m =
        download_strains c simkeys keep_h5 overwrite prot lfs verbose
          (if verbose then emit [Print (skey @ '' already downloaded, skipping.'')] m else m)"
    by (simp add: download_one_skip)
next
  assume a: "download_strains c [skey] keep_h5 False prot lfs verbose m = (None, m')"
  then have "download_one c keep_h5 False prot lfs verbose m skey = (None, m')"
    by (cases "download_one c keep_h5 False prot lfs verbose m skey")
       (auto split: option.splits)
  then have d: "downloaded m' skey \<noteq> None" by (rule download_one_records)
  show "download_strains c [skey] keep_h5 False prot lfs verbose m' =
        (None, if verbose then emit [Print (skey @ '' already downloaded, skipping.'')] m' else m')"
    using d by (simp add: download_one_skip)
  then show "downloaded (snd (download_strains c [skey] keep_h5 False prot lfs verbose m')) = downloaded m'"
    by simp
qed

theorem download_skips_cached_witness:
  "fst (download_strains cdb_example [''S''] False False ''https'' False True manager_new) = None \<and>
   trace (snd (download_strains cdb_example [''S''] False False ''https'' False True manager_new)) =
     [Sync ''S'' ''https'' False,
      SaveTxt [''db'', ''S'', ''R01'', ''Rh_l2_m2_r99999.txt''] [[Fin 1]] header_gw_txt,
      Unlink [''db'', ''S'', ''R01'', ''data.h5''], Rmtree [''db'', ''S'', ''.git''],
      Print ''S downloaded.''] \<and>
   download_strains cdb_example [''S''] False False ''https'' False True
       (snd (download_strains cdb_example [''S''] False False ''https'' False True manager_new)) =
     (None, emit [Print ''S already downloaded, skipping.'']
       (snd (download_strains cdb_example [''S''] False False ''https'' False True manager_new)))"
proof -
  let ?m1 = "snd (download_strains cdb_example [''S''] False False ''https'' False True manager_new)"
  have 1: "fst (download_strains cdb_example [''S''] False False ''https'' False True manager_new) = None"
    by code_simp
  have 2: "trace ?m1 =
     [Sync ''S'' ''https'' False,
      SaveTxt [''db'', ''S'', ''R01'', ''Rh_l2_m2_r99999.txt''] [[Fin 1]] header_gw_txt,
      Unlink [''db'', ''S'', ''R01'', ''data.h5''], Rmtree [''db'', ''S'', ''.git''],
      Print ''S downloaded.'']"
    by code_simp
  have first: "download_strains cdb_example [''S''] False False ''https'' False True manager_new = (None, ?m1)"
    using 1 by (simp add: prod_eq_iff)
  have 3: "download_strains cdb_example [''S''] False False ''https'' False True ?m1 =
     (None, emit [Print ''S already downloaded, skipping.''] ?m1)"
    using download_skips_cached[of manager_new "''S''" False cdb_example "[]" False "''https''" False True ?m1,
            THEN conjunct2, THEN mp, OF first, THEN conjunct1]
    by simp
  show ?thesis using 1 2 3 by (intro conjI)
qed

subsection \<open>What \<^verbatim>\<open>cast_to_float\<close> accepts\<close>

















end
